theory Spec2Isabelle
  imports Main
begin

section \<open>Bytes, text and exceptions\<close>

text \<open>
  A Python \<^verbatim>\<open>bytes\<close> object is a list of 8-bit characters, a Python \<^verbatim>\<open>str\<close> a list of
  Unicode code points. The exceptions are the ones that \<^verbatim>\<open>MARCReader.__init__\<close> and
  \<^verbatim>\<open>MARCReader.__next__\<close> of \<^verbatim>\<open>pymarc/reader.py\<close> can let escape or catch.
\<close>

type_synonym bytes = "char list"
type_synonym str = "nat list"

datatype exn =
    StopIteration
  | RecordLengthInvalid
  | ValueError
  | TypeError
  | UnicodeDecodeError
  | UnicodeEncodeError
  | AttributeError
  | OSError

text \<open>The documented values of the keyword argument \<^verbatim>\<open>utf8_handling\<close>.\<close>

datatype error_handler = Strict | Replace | XmlCharRefReplace | Ignore

section \<open>The byte stream\<close>

text \<open>
  \<^verbatim>\<open>self.byte_stream\<close> is an \<^verbatim>\<open>io.BufferedReader\<close> (passed in, or the result of
  \<^verbatim>\<open>open(name, 'rb')\<close>) or an \<^verbatim>\<open>io.BytesIO\<close>: the bytes of the source and the
  position of the cursor. \<^verbatim>\<open>read(n)\<close> returns at most \<open>n\<close> bytes from the cursor and
  moves it past them. A negative \<open>n\<close> reads to the end, except that a
  \<^verbatim>\<open>BufferedReader\<close> accepts only \<open>-1\<close> and raises \<^verbatim>\<open>ValueError\<close> below it.
  The stream is open and blocking, and its bytes do not change while the reader runs:
  nothing in the module closes it or writes to it.
\<close>

datatype stream_kind = BufferedReader | BytesIO

record stream =
  kind :: stream_kind
  data :: bytes
  pos :: nat

definition read :: "stream \<Rightarrow> int \<Rightarrow> exn + (bytes \<times> stream)" where
  "read s n =
     (if n < 0 then
        (if kind s = BufferedReader \<and> n < - 1 then Inl ValueError
         else let out = drop (pos s) (data s)
              in Inr (out, s\<lparr>pos := pos s + length out\<rparr>))
      else let out = take (nat n) (drop (pos s) (data s))
           in Inr (out, s\<lparr>pos := pos s + length out\<rparr>))"

section \<open>The built-in \<^verbatim>\<open>int\<close> on bytes\<close>

text \<open>
  \<^verbatim>\<open>int(first5)\<close> parses a decimal literal: white space on both sides is skipped, one
  sign is allowed, and the digits may be separated by single underscores. Anything else
  raises \<^verbatim>\<open>ValueError\<close>, which is the result \<open>None\<close> here.
\<close>

definition is_space :: "char \<Rightarrow> bool" where
  "is_space c \<longleftrightarrow> c \<in> set [CHR '' '', CHR 0x09, CHR 0x0A, CHR 0x0B, CHR 0x0C, CHR 0x0D]"

definition digit_val :: "char \<Rightarrow> nat option" where
  "digit_val c =
     (if 48 \<le> (of_char c :: nat) \<and> (of_char c :: nat) \<le> 57
      then Some (of_char c - 48) else None)"

fun scan_digits :: "nat \<Rightarrow> bool \<Rightarrow> bytes \<Rightarrow> nat option" where
  "scan_digits acc us [] = (if us then None else Some acc)"
| "scan_digits acc us (c # cs) =
     (if c = CHR ''_'' then (if us then None else scan_digits acc True cs)
      else case digit_val c of
             None \<Rightarrow> None
           | Some d \<Rightarrow> scan_digits (10 * acc + d) False cs)"

definition strip :: "bytes \<Rightarrow> bytes" where
  "strip bs = rev (dropWhile is_space (rev (dropWhile is_space bs)))"

definition unsigned_int :: "bytes \<Rightarrow> nat option" where
  "unsigned_int bs =
     (case bs of
        [] \<Rightarrow> None
      | c # _ \<Rightarrow> if c = CHR ''_'' then None else scan_digits 0 False bs)"

definition py_int :: "bytes \<Rightarrow> int option" where
  "py_int bs =
     (case strip bs of
        [] \<Rightarrow> None
      | c # cs \<Rightarrow>
          if c = CHR ''+'' then map_option int (unsigned_int cs)
          else if c = CHR ''-'' then map_option (\<lambda>n. - int n) (unsigned_int cs)
          else map_option int (unsigned_int (c # cs)))"

section \<open>The UTF-8 codec\<close>

text \<open>
  \<^verbatim>\<open>chunk.decode(encoding='utf-8', errors=...)\<close>. The decoder cuts the bytes into
  pieces: a well-formed sequence of one to four bytes gives its code point, and an
  ill-formed one gives an invalid piece that covers the lead byte and the continuation
  bytes that were still acceptable. \<open>utf8_first\<close> returns the first piece and how many
  bytes after the lead byte belong to it.
\<close>

datatype piece = CodePoint nat | Invalid

definition cont :: "nat \<Rightarrow> bool" where
  "cont b \<longleftrightarrow> 0x80 \<le> b \<and> b < 0xC0"

definition utf8_first :: "nat \<Rightarrow> nat list \<Rightarrow> piece \<times> nat" where
  "utf8_first b bs =
     (if b < 0x80 then (CodePoint b, 0)
      else if b < 0xC2 then (Invalid, 0)
      else if b < 0xE0 then
        (case bs of
           [] \<Rightarrow> (Invalid, 0)
         | b2 # _ \<Rightarrow>
             if \<not> cont b2 then (Invalid, 0)
             else (CodePoint ((b - 0xC0) * 64 + (b2 - 0x80)), 1))
      else if b < 0xF0 then
        (case bs of
           [] \<Rightarrow> (Invalid, 0)
         | b2 # bs2 \<Rightarrow>
             if \<not> cont b2 \<or> (b = 0xE0 \<and> b2 < 0xA0) \<or> (b = 0xED \<and> 0xA0 \<le> b2)
             then (Invalid, 0)
             else (case bs2 of
                     [] \<Rightarrow> (Invalid, 1)
                   | b3 # _ \<Rightarrow>
                       if \<not> cont b3 then (Invalid, 1)
                       else (CodePoint ((b - 0xE0) * 4096 + (b2 - 0x80) * 64 + (b3 - 0x80)), 2)))
      else if b < 0xF5 then
        (case bs of
           [] \<Rightarrow> (Invalid, 0)
         | b2 # bs2 \<Rightarrow>
             if \<not> cont b2 \<or> (b = 0xF0 \<and> b2 < 0x90) \<or> (b = 0xF4 \<and> 0x90 \<le> b2)
             then (Invalid, 0)
             else (case bs2 of
                     [] \<Rightarrow> (Invalid, 1)
                   | b3 # bs3 \<Rightarrow>
                       if \<not> cont b3 then (Invalid, 1)
                       else (case bs3 of
                               [] \<Rightarrow> (Invalid, 2)
                             | b4 # _ \<Rightarrow>
                                 if \<not> cont b4 then (Invalid, 2)
                                 else (CodePoint ((b - 0xF0) * 262144 + (b2 - 0x80) * 4096
                                                   + (b3 - 0x80) * 64 + (b4 - 0x80)), 3))))
      else (Invalid, 0))"

fun utf8_pieces :: "nat list \<Rightarrow> piece list" where
  "utf8_pieces [] = []"
| "utf8_pieces (b # bs) = (case utf8_first b bs of (p, k) \<Rightarrow> p # utf8_pieces (drop k bs))"

text \<open>A buffer contains an invalid UTF-8 byte sequence when one of its pieces is invalid.\<close>

definition invalid_utf8 :: "bytes \<Rightarrow> bool" where
  "invalid_utf8 bs \<longleftrightarrow> Invalid \<in> set (utf8_pieces (map of_char bs))"

text \<open>
  What an error handler puts in the place of an invalid piece: \<^verbatim>\<open>replace\<close> the
  character U+FFFD, \<^verbatim>\<open>ignore\<close> nothing. \<^verbatim>\<open>strict\<close> raises
  \<^verbatim>\<open>UnicodeDecodeError\<close>; \<^verbatim>\<open>xmlcharrefreplace\<close> is a handler for encoding only and
  raises \<^verbatim>\<open>TypeError\<close> when the decoder calls it. No handler is called on bytes that
  are well-formed.
\<close>

fun piece_str :: "error_handler \<Rightarrow> piece \<Rightarrow> str" where
  "piece_str h (CodePoint c) = [c]"
| "piece_str Replace Invalid = [0xFFFD]"
| "piece_str h Invalid = []"

definition decode :: "bytes \<Rightarrow> error_handler \<Rightarrow> exn + str" where
  "decode bs errors =
     (if invalid_utf8 bs \<and> errors = Strict then Inl UnicodeDecodeError
      else if invalid_utf8 bs \<and> errors = XmlCharRefReplace then Inl TypeError
      else Inr (concat (map (piece_str errors) (utf8_pieces (map of_char bs)))))"

section \<open>The reader\<close>

text \<open>
  The \<^verbatim>\<open>Record\<close> class is imported from the package and is not part of
  \<^verbatim>\<open>reader.py\<close>: it is a parameter \<open>Record\<close> of the model, a function of the chunk and the
  two keyword arguments that returns a record or raises an exception of its own. The chunk
  it receives is text when decoding succeeded and the raw bytes when it did not.
\<close>

datatype chunk = Bytes bytes | Str str

type_synonym ('e, 'r) builder = "chunk \<Rightarrow> bool \<Rightarrow> error_handler \<Rightarrow> 'e + 'r"

record reader =
  utf8_handling :: error_handler
  hide_utf8_warnings :: bool
  byte_stream :: stream

text \<open>
  What a call of \<^verbatim>\<open>__next__\<close> writes: messages of \<^verbatim>\<open>logging.error\<close> and tracebacks
  printed to \<^verbatim>\<open>sys.stderr\<close>. The two messages of the source are
  \<^verbatim>\<open>"TypeError chunk type is %s"\<close> and \<^verbatim>\<open>"Cannot iterate, error=%s"\<close>, the latter with
  the class of the exception caught.
\<close>

datatype log_msg = TypeError_chunk_type | Cannot_iterate exn

datatype 'e diag = Logged log_msg | Traceback 'e

text \<open>
  A call either raises or returns; it returns \<open>None\<close> when the body falls off its end
  after the \<^verbatim>\<open>except\<close> clause of the second \<^verbatim>\<open>try\<close>.
\<close>

datatype 'r outcome = Raise exn | Return "'r option"

text \<open>
  Lines 55 to 62: the framing. The result is the raw record buffer or the exception
  raised, with the stream where the reads left it.
\<close>

definition read_chunk :: "stream \<Rightarrow> (exn + bytes) \<times> stream" where
  "read_chunk s =
     (case read s 5 of
        Inl e \<Rightarrow> (Inl e, s)
      | Inr (first5, s1) \<Rightarrow>
          if first5 = [] then (Inl StopIteration, s1)
          else if length first5 < 5 then (Inl RecordLengthInvalid, s1)
          else
            (case py_int first5 of
               None \<Rightarrow> (Inl ValueError, s1)
             | Some len \<Rightarrow>
                 (case read s1 (len - 5) of
                    Inl e \<Rightarrow> (Inl e, s1)
                  | Inr (rest, s2) \<Rightarrow> (Inr (first5 @ rest), s2))))"

text \<open>
  Lines 63 to 69: the first \<^verbatim>\<open>try\<close>. A failed decode is logged and leaves \<open>chunk\<close>
  as the bytes it was.
\<close>

definition decode_chunk :: "bytes \<Rightarrow> error_handler \<Rightarrow> chunk \<times> log_msg list" where
  "decode_chunk raw errors =
     (case decode raw errors of
        Inr t \<Rightarrow> (Str t, [])
      | Inl e \<Rightarrow>
          if e = TypeError then (Bytes raw, [TypeError_chunk_type])
          else (Bytes raw, [Cannot_iterate e]))"

text \<open>
  Lines 70 to 78: the second \<^verbatim>\<open>try\<close>. Whatever the builder raises is caught, its
  traceback is printed, and the body ends without a \<^verbatim>\<open>return\<close>.
\<close>

definition build_record :: "('e, 'r) builder \<Rightarrow> chunk \<Rightarrow> reader \<Rightarrow> 'r outcome \<times> 'e list" where
  "build_record Record c r =
     (case Record c (hide_utf8_warnings r) (utf8_handling r) of
        Inr record \<Rightarrow> (Return (Some record), [])
      | Inl e \<Rightarrow> (Return None, [e]))"

text \<open>
  \<^verbatim>\<open>MARCReader.__next__\<close>: the outcome of the call, what it wrote, and the reader with
  its stream where the call left it.
\<close>

definition MARCReader_next ::
  "('e, 'r) builder \<Rightarrow> reader \<Rightarrow> 'r outcome \<times> 'e diag list \<times> reader" where
  "MARCReader_next Record r =
     (case read_chunk (byte_stream r) of
        (Inl e, s) \<Rightarrow> (Raise e, [], r\<lparr>byte_stream := s\<rparr>)
      | (Inr raw, s) \<Rightarrow>
          (case decode_chunk raw (utf8_handling r) of
             (c, log) \<Rightarrow>
               (case build_record Record c r of
                  (res, tb) \<Rightarrow>
                    (res, map Logged log @ map Traceback tb, r\<lparr>byte_stream := s\<rparr>))))"

text \<open>The bytes between the cursor and the end of the stream.\<close>

definition remaining :: "reader \<Rightarrow> bytes" where
  "remaining r = drop (pos (byte_stream r)) (data (byte_stream r))"

text \<open>
  A caller that calls \<^verbatim>\<open>__next__\<close> \<open>n\<close> times, whatever each call does: the outcomes
  in order.
\<close>

fun calls :: "('e, 'r) builder \<Rightarrow> nat \<Rightarrow> reader \<Rightarrow> 'r outcome list" where
  "calls Record 0 r = []"
| "calls Record (Suc n) r =
     (case MARCReader_next Record r of (res, _, r') \<Rightarrow> res # calls Record n r')"

text \<open>
  A \<^verbatim>\<open>for\<close> loop over the reader, as in \<^verbatim>\<open>map_records\<close>: it calls \<^verbatim>\<open>__next__\<close> until
  a call raises. The result is the span of bytes that each returning call consumed, and
  the exception that ended the loop.
\<close>

function iterate :: "('e, 'r) builder \<Rightarrow> reader \<Rightarrow> bytes list \<times> exn" where
  "iterate Record r =
     (case MARCReader_next Record r of
        (Raise e, _, _) \<Rightarrow> ([], e)
      | (Return x, _, r') \<Rightarrow>
          (case iterate Record r' of
             (spans, e) \<Rightarrow>
               (take (pos (byte_stream r') - pos (byte_stream r)) (remaining r) # spans, e)))"
  by pat_completeness auto
termination
  by (relation "measure (\<lambda>(Record, r). length (remaining r))")
     (auto simp: MARCReader_next_def read_chunk_def read_def remaining_def build_record_def
                 Let_def
           split: sum.splits prod.splits if_splits option.splits)

declare iterate.simps [simp del]

text \<open>
  A well-formed record on the wire: five decimal digits that give the total length of the
  record, these five bytes included, and the rest of that many bytes.
\<close>

definition is_digit :: "char \<Rightarrow> bool" where
  "is_digit c \<longleftrightarrow> 48 \<le> (of_char c :: nat) \<and> (of_char c :: nat) \<le> 57"

definition decimal_value :: "bytes \<Rightarrow> nat" where
  "decimal_value bs = foldl (\<lambda>a c. 10 * a + (of_char c - 48)) 0 bs"

definition well_formed :: "bytes \<Rightarrow> bool" where
  "well_formed rec \<longleftrightarrow>
     5 \<le> length rec \<and> list_all is_digit (take 5 rec) \<and> decimal_value (take 5 rec) = length rec"

section \<open>The constructor\<close>

text \<open>
  \<^verbatim>\<open>MARCReader.__init__\<close> looks at its argument with \<^verbatim>\<open>hasattr\<close> and \<^verbatim>\<open>type\<close>, so an
  argument is one of:
  \<^item> an object whose type is \<^verbatim>\<open>BufferedReader\<close> itself: the stream that it is;
  \<^item> any other object with a callable \<^verbatim>\<open>read\<close> (a text-mode file, a \<^verbatim>\<open>BytesIO\<close>, a
    handle of another buffered class): its identity, its class, which the constructor
    does not look at beyond the test above, and its attribute \<^verbatim>\<open>name\<close>, a path, when
    it has one;
  \<^item> an object with no callable \<^verbatim>\<open>read\<close> and an attribute \<^verbatim>\<open>buffer\<close>: what
    \<^verbatim>\<open>BufferedReader(marc_target)\<close> makes of it, a stream or an exception;
  \<^item> a \<^verbatim>\<open>str\<close>;
  \<^item> anything else, which has no method \<^verbatim>\<open>encode\<close> (a \<^verbatim>\<open>bytes\<close> object is one).

  The world outside is the file system and the order in which handles were closed and
  files opened.
\<close>

datatype py_class = TextIOWrapper_class | BufferedRandom_class | BytesIO_class | Other_class

record file_like =
  ident :: nat
  cls :: py_class
  name_attr :: "string option"

datatype marc_target =
    Buffered stream
  | FileLike file_like
  | WithBuffer "exn + stream"
  | Text str
  | NoEncode

datatype io_event = Close nat | Open string

record world =
  files :: "string \<Rightarrow> bytes option"
  io_trace :: "io_event list"

record kwargs =
  kw_utf8_handling :: "error_handler option"
  kw_hide_utf8_warnings :: "bool option"

text \<open>\<^verbatim>\<open>open(filehandle_name, 'rb')\<close>: a new \<^verbatim>\<open>BufferedReader\<close> at the start of the file.\<close>

definition open_rb :: "world \<Rightarrow> string \<Rightarrow> (exn + stream) \<times> world" where
  "open_rb w path =
     (case files w path of
        None \<Rightarrow> (Inl OSError, w)
      | Some bs \<Rightarrow>
          (Inr \<lparr>kind = BufferedReader, data = bs, pos = 0\<rparr>,
           w\<lparr>io_trace := io_trace w @ [Open path]\<rparr>))"

text \<open>
  \<^verbatim>\<open>marc_target.encode(encoding='ascii', errors=...)\<close>: a code point below 128 is its
  byte; for any other, \<^verbatim>\<open>strict\<close> raises \<^verbatim>\<open>UnicodeEncodeError\<close>, \<^verbatim>\<open>replace\<close> writes a
  question mark, \<^verbatim>\<open>ignore\<close> writes nothing and \<^verbatim>\<open>xmlcharrefreplace\<close> writes the
  numeric character reference.
\<close>

fun decimal :: "nat \<Rightarrow> bytes" where
  "decimal n = (if n < 10 then [char_of (48 + n)] else decimal (n div 10) @ [char_of (48 + n mod 10)])"

declare decimal.simps [simp del]

definition encode_char :: "error_handler \<Rightarrow> nat \<Rightarrow> bytes option" where
  "encode_char errors c =
     (if c < 128 then Some [char_of c]
      else case errors of
             Strict \<Rightarrow> None
           | Replace \<Rightarrow> Some ''?''
           | Ignore \<Rightarrow> Some []
           | XmlCharRefReplace \<Rightarrow> Some (''&#'' @ decimal c @ '';''))"

definition encode_ascii :: "str \<Rightarrow> error_handler \<Rightarrow> exn + bytes" where
  "encode_ascii t errors =
     (if list_ex (\<lambda>c. encode_char errors c = None) t then Inl UnicodeEncodeError
      else Inr (concat (map (\<lambda>c. the (encode_char errors c)) t)))"

text \<open>Lines 37 to 51: the choice of \<^verbatim>\<open>self.byte_stream\<close>.\<close>

definition normalize :: "world \<Rightarrow> marc_target \<Rightarrow> error_handler \<Rightarrow> (exn + stream) \<times> world" where
  "normalize w marc_target errors =
     (case marc_target of
        Buffered s \<Rightarrow> (Inr s, w)
      | FileLike f \<Rightarrow>
          (case name_attr f of
             None \<Rightarrow> (Inl AttributeError, w)
           | Some filehandle_name \<Rightarrow>
               open_rb (w\<lparr>io_trace := io_trace w @ [Close (ident f)]\<rparr>) filehandle_name)
      | WithBuffer wrapped \<Rightarrow> (wrapped, w)
      | Text t \<Rightarrow>
          (case encode_ascii t errors of
             Inl e \<Rightarrow> (Inl e, w)
           | Inr raw_bytes \<Rightarrow> (Inr \<lparr>kind = BytesIO, data = raw_bytes, pos = 0\<rparr>, w))
      | NoEncode \<Rightarrow> (Inl AttributeError, w))"

text \<open>Lines 29 to 36: the two keyword arguments and their defaults.\<close>

definition get_utf8_handling :: "kwargs \<Rightarrow> error_handler" where
  "get_utf8_handling kw = (case kw_utf8_handling kw of Some v \<Rightarrow> v | None \<Rightarrow> Strict)"

definition get_hide_utf8_warnings :: "kwargs \<Rightarrow> bool" where
  "get_hide_utf8_warnings kw = (case kw_hide_utf8_warnings kw of Some v \<Rightarrow> v | None \<Rightarrow> False)"

text \<open>\<^verbatim>\<open>MARCReader.__init__\<close>: the reader, or the exception that left the constructor.\<close>

definition MARCReader_init :: "world \<Rightarrow> marc_target \<Rightarrow> kwargs \<Rightarrow> (exn + reader) \<times> world" where
  "MARCReader_init w marc_target kw =
     (case normalize w marc_target (get_utf8_handling kw) of
        (Inl e, w') \<Rightarrow> (Inl e, w')
      | (Inr s, w') \<Rightarrow>
          (Inr \<lparr>utf8_handling = get_utf8_handling kw,
                hide_utf8_warnings = get_hide_utf8_warnings kw,
                byte_stream = s\<rparr>, w'))"

text \<open>
  The specification speaks of an input that is already a buffered binary handle. In
  Python's \<^verbatim>\<open>io\<close> module these are the \<^verbatim>\<open>BufferedReader\<close>, but also the
  \<^verbatim>\<open>BufferedRandom\<close> of a file opened for reading and writing and the in-memory
  \<^verbatim>\<open>BytesIO\<close>, which both have a callable \<^verbatim>\<open>read\<close>.
\<close>

definition buffered_binary_handle :: "marc_target \<Rightarrow> bool" where
  "buffered_binary_handle t =
     (case t of
        Buffered s \<Rightarrow> True
      | FileLike f \<Rightarrow> cls f = BufferedRandom_class \<or> cls f = BytesIO_class
      | WithBuffer wrapped \<Rightarrow> False
      | Text txt \<Rightarrow> False
      | NoEncode \<Rightarrow> False)"

section \<open>Example inputs\<close>

text \<open>
  A builder that accepts every chunk and returns it as the record, a builder that rejects
  every chunk, and a reader over an in-memory payload, for the concrete instances below.
\<close>

definition echo :: "(unit, chunk) builder" where
  "echo c hide errors = Inr c"

definition bytes_reader :: "error_handler \<Rightarrow> bytes \<Rightarrow> reader" where
  "bytes_reader errors bs =
     \<lparr>utf8_handling = errors, hide_utf8_warnings = False,
      byte_stream = \<lparr>kind = BytesIO, data = bs, pos = 0\<rparr>\<rparr>"

definition reject :: "(unit, chunk) builder" where
  "reject c hide errors = Inl ()"

definition bad_record :: bytes where
  "bad_record = ''00006'' @ [CHR 0xFF]"

definition truncated_input :: bytes where
  "truncated_input = ''00050abcdefghijklmnopqrstuvwxyz012345678''"

text \<open>
  A file system with one file; a text-mode handle on it, a handle on it opened for reading
  and writing, and an in-memory binary stream, which has no name; a construction with no
  keyword arguments and one with both.
\<close>

definition example_world :: world where
  "example_world =
     \<lparr>files = (\<lambda>p. if p = ''a.mrc'' then Some ''00007ab'' else None), io_trace = []\<rparr>"

definition text_file :: file_like where
  "text_file = \<lparr>ident = 1, cls = TextIOWrapper_class, name_attr = Some ''a.mrc''\<rparr>"

definition random_file :: file_like where
  "random_file = \<lparr>ident = 2, cls = BufferedRandom_class, name_attr = Some ''a.mrc''\<rparr>"

definition memory_stream :: file_like where
  "memory_stream = \<lparr>ident = 3, cls = BytesIO_class, name_attr = None\<rparr>"

definition replace_kwargs :: kwargs where
  "replace_kwargs = \<lparr>kw_utf8_handling = Some Replace, kw_hide_utf8_warnings = Some True\<rparr>"

definition no_kwargs :: kwargs where
  "no_kwargs = \<lparr>kw_utf8_handling = None, kw_hide_utf8_warnings = None\<rparr>"

section \<open>Framing: what the reads return\<close>

lemma read5: "read s 5 = Inr (take 5 (drop (pos s) (data s)),
    s\<lparr>pos := pos s + length (take 5 (drop (pos s) (data s)))\<rparr>)"
  by (simp add: read_def Let_def)

lemma read_Inl: "read s n = Inl e \<Longrightarrow> e = ValueError"
  by (auto simp: read_def Let_def split: if_splits)

lemma take_length_take: "take (length (take n xs)) xs = take n xs"
  by (cases "n \<le> length xs") (simp_all add: min_def)

lemma read_Inr:
  "read s n = Inr (out, s') \<Longrightarrow>
     s' = s\<lparr>pos := pos s + length out\<rparr> \<and> out = take (length out) (drop (pos s) (data s))"
  by (auto simp: read_def Let_def take_length_take simp del: length_take split: if_splits)

lemma read_chunk_empty:
  "drop (pos s) (data s) = [] \<Longrightarrow> read_chunk s = (Inl StopIteration, s)"
  by (simp add: read_chunk_def read5)

lemma read_chunk_short:
  "drop (pos s) (data s) \<noteq> [] \<Longrightarrow> length (data s) - pos s < 5 \<Longrightarrow>
     read_chunk s = (Inl RecordLengthInvalid, s\<lparr>pos := length (data s)\<rparr>)"
  by (auto simp add: read_chunk_def read5)

lemma read_chunk_full:
  "5 \<le> length (data s) - pos s \<Longrightarrow>
     read_chunk s =
       (case py_int (take 5 (drop (pos s) (data s))) of
          None \<Rightarrow> (Inl ValueError, s\<lparr>pos := pos s + 5\<rparr>)
        | Some len \<Rightarrow>
            (case read (s\<lparr>pos := pos s + 5\<rparr>) (len - 5) of
               Inl e \<Rightarrow> (Inl e, s\<lparr>pos := pos s + 5\<rparr>)
             | Inr (rest, s2) \<Rightarrow> (Inr (take 5 (drop (pos s) (data s)) @ rest), s2)))"
  by (auto simp add: read_chunk_def read5 min_def split: option.splits sum.splits)

lemma read_chunk_Inr:
  assumes "read_chunk s = (Inr raw, s')"
  shows "s' = s\<lparr>pos := pos s + length raw\<rparr> \<and> raw = take (length raw) (drop (pos s) (data s))
         \<and> 5 \<le> length raw"
proof -
  have five: "5 \<le> length (data s) - pos s"
  proof (rule ccontr)
    assume "\<not> 5 \<le> length (data s) - pos s"
    then have "length (data s) - pos s < 5" by simp
    then have "fst (read_chunk s) = Inl StopIteration \<or> fst (read_chunk s) = Inl RecordLengthInvalid"
      by (cases "drop (pos s) (data s) = []") (simp_all add: read_chunk_empty read_chunk_short)
    with assms show False by auto
  qed
  let ?p = "take 5 (drop (pos s) (data s))"
  let ?s1 = "s\<lparr>pos := pos s + 5\<rparr>"
  from assms five obtain len rest where
    rd: "read ?s1 (len - 5) = Inr (rest, s')" and raw: "raw = ?p @ rest"
    by (auto simp: read_chunk_full split: option.splits sum.splits)
  from read_Inr [OF rd] have s': "s' = ?s1\<lparr>pos := pos ?s1 + length rest\<rparr>"
    and rest: "rest = take (length rest) (drop (pos ?s1) (data ?s1))" by blast+
  have lp: "length ?p = 5" using five by simp
  have "take (length raw) (drop (pos s) (data s)) = take (5 + length rest) (drop (pos s) (data s))"
    using raw lp by simp
  also have "\<dots> = ?p @ take (length rest) (drop 5 (drop (pos s) (data s)))"
    by (rule take_add)
  also have "drop 5 (drop (pos s) (data s)) = drop (pos ?s1) (data ?s1)"
    by (simp add: add.commute)
  also have "?p @ take (length rest) (drop (pos ?s1) (data ?s1)) = raw"
    using rest raw by simp
  finally have "take (length raw) (drop (pos s) (data s)) = raw" .
  moreover have "s' = s\<lparr>pos := pos s + length raw\<rparr>" using s' raw lp by simp
  moreover have "5 \<le> length raw" using raw lp by simp
  ultimately show ?thesis by simp
qed

lemma read_chunk_Inl:
  assumes "read_chunk s = (Inl e, s')"
  shows "e = StopIteration \<and> drop (pos s) (data s) = [] \<and> s' = s
       \<or> e = RecordLengthInvalid \<and> drop (pos s) (data s) \<noteq> [] \<and> length (data s) - pos s < 5
       \<or> e = ValueError \<and> 5 \<le> length (data s) - pos s \<and> s' = s\<lparr>pos := pos s + 5\<rparr>"
proof (cases "5 \<le> length (data s) - pos s")
  case True
  with assms show ?thesis
    by (auto simp: read_chunk_full split: option.splits sum.splits dest: read_Inl)
next
  case False
  then have lt: "length (data s) - pos s < 5" by simp
  show ?thesis
  proof (cases "drop (pos s) (data s) = []")
    case True
    with assms show ?thesis by (simp add: read_chunk_empty)
  next
    case False
    with assms lt show ?thesis by (simp add: read_chunk_short)
  qed
qed

lemmas eval_defs = bytes_reader_def echo_def remaining_def MARCReader_next_def read_chunk_def read_def
  py_int_def strip_def is_space_def unsigned_int_def digit_val_def decode_chunk_def decode_def
  invalid_utf8_def utf8_first_def cont_def build_record_def Let_def

lemma next_empty:
  "remaining r = [] \<Longrightarrow> MARCReader_next Record r = (Raise StopIteration, [], r)"
  by (simp add: MARCReader_next_def remaining_def read_chunk_empty)

lemma next_Raise:
  "read_chunk (byte_stream r) = (Inl e, s) \<Longrightarrow>
     MARCReader_next Record r = (Raise e, [], r\<lparr>byte_stream := s\<rparr>)"
  by (simp add: MARCReader_next_def)

lemma next_Return:
  "read_chunk (byte_stream r) = (Inr raw, s) \<Longrightarrow>
     MARCReader_next Record r =
       (fst (build_record Record (fst (decode_chunk raw (utf8_handling r))) r),
        map Logged (snd (decode_chunk raw (utf8_handling r)))
          @ map Traceback (snd (build_record Record (fst (decode_chunk raw (utf8_handling r))) r)),
        r\<lparr>byte_stream := s\<rparr>)"
  by (simp add: MARCReader_next_def split: prod.splits)

lemma build_record_Return: "\<exists>x. fst (build_record Record c r) = Return x"
  by (simp add: build_record_def split: sum.splits)

lemma next_StopIteration:
  assumes "fst (MARCReader_next Record r) = Raise StopIteration"
  shows "remaining r = []"
proof (cases "read_chunk (byte_stream r)")
  case (Pair res s)
  show ?thesis
  proof (cases res)
    case (Inl e)
    with Pair assms have "e = StopIteration" by (simp add: next_Raise)
    with Pair Inl read_chunk_Inl [of "byte_stream r" e s] show ?thesis
      by (simp add: remaining_def)
  next
    case (Inr raw)
    with Pair assms build_record_Return [of Record "fst (decode_chunk raw (utf8_handling r))" r]
    show ?thesis by (auto simp: next_Return)
  qed
qed

lemma calls_exhausted:
  "remaining r = [] \<Longrightarrow> calls Record n r = replicate n (Raise StopIteration)"
  by (induction n) (simp_all add: next_empty)

lemma iterate_exhausted: "remaining r = [] \<Longrightarrow> iterate Record r = ([], StopIteration)"
  by (subst iterate.simps) (simp add: next_empty)

lemma decode_chunk_Inl:
  "decode raw errors = Inl e \<Longrightarrow>
     decode_chunk raw errors =
       (Bytes raw, [if e = TypeError then TypeError_chunk_type else Cannot_iterate e])"
  by (simp add: decode_chunk_def)

lemma read_chunk_pos:
  assumes "read_chunk (byte_stream r) = (Inr raw, s)"
  shows "remaining (r\<lparr>byte_stream := s\<rparr>) = drop (length raw) (remaining r)
         \<and> raw = take (length raw) (remaining r)"
  using read_chunk_Inr [OF assms] by (simp add: remaining_def add.commute)

lemma read_chunk_truncated:
  assumes five: "5 \<le> length (data s) - pos s"
    and len: "py_int (take 5 (drop (pos s) (data s))) = Some L"
    and short: "int (length (data s) - pos s) < L"
  shows "read_chunk s = (Inr (drop (pos s) (data s)), s\<lparr>pos := length (data s)\<rparr>)"
proof -
  let ?xs = "drop (pos s) (data s)"
  have n: "length (data s) - (pos s + 5) \<le> nat (L - 5)" using five short by simp
  have nonneg: "\<not> L - 5 < 0" using five short by linarith
  have "read (s\<lparr>pos := pos s + 5\<rparr>) (L - 5)
      = Inr (drop (pos s + 5) (data s), s\<lparr>pos := length (data s)\<rparr>)"
    using five n nonneg by (simp add: read_def Let_def)
  moreover have "take 5 ?xs @ drop (pos s + 5) (data s) = ?xs"
    by (metis add.commute append_take_drop_id drop_drop)
  ultimately show ?thesis using five len by (simp add: read_chunk_full)
qed

lemma decode_strict_invalid: "invalid_utf8 raw \<Longrightarrow> decode raw Strict = Inl UnicodeDecodeError"
  by (simp add: decode_def)

section \<open>Well-formed records\<close>

lemma digit_not_special:
  "is_digit c \<Longrightarrow> \<not> is_space c \<and> c \<noteq> CHR ''_'' \<and> c \<noteq> CHR ''+'' \<and> c \<noteq> CHR ''-''
     \<and> digit_val c = Some (of_char c - 48)"
  by (auto simp: is_digit_def is_space_def digit_val_def)

lemma scan_digits_digits:
  "list_all is_digit bs \<Longrightarrow>
     scan_digits acc False bs = Some (foldl (\<lambda>a c. 10 * a + (of_char c - 48)) acc bs)"
  by (induction bs arbitrary: acc) (simp_all add: digit_not_special)

lemma dropWhile_none: "\<forall>x\<in>set xs. \<not> P x \<Longrightarrow> dropWhile P xs = xs"
  by (cases xs) simp_all

lemma strip_digits: "list_all is_digit bs \<Longrightarrow> strip bs = bs"
  by (simp add: strip_def dropWhile_none list_all_iff digit_not_special)

lemma py_int_digits:
  assumes "list_all is_digit bs" and "bs \<noteq> []"
  shows "py_int bs = Some (int (decimal_value bs))"
proof -
  from assms obtain c cs where bs: "bs = c # cs" by (cases bs) auto
  with assms(1) have c: "is_digit c" by simp
  have "unsigned_int bs = Some (decimal_value bs)"
    using assms(1) c bs by (simp add: unsigned_int_def decimal_value_def scan_digits_digits
        digit_not_special del: scan_digits.simps)
  with assms(1) c bs show ?thesis
    by (simp add: py_int_def strip_digits digit_not_special)
qed

lemma read_chunk_well_formed:
  assumes wf: "well_formed rec" and rem: "drop (pos s) (data s) = rec @ post"
  shows "read_chunk s = (Inr rec, s\<lparr>pos := pos s + length rec\<rparr>)"
proof -
  from wf have len: "5 \<le> length rec" and dig: "list_all is_digit (take 5 rec)"
    and val: "decimal_value (take 5 rec) = length rec"
    by (simp_all add: well_formed_def)
  have "length (drop (pos s) (data s)) = length rec + length post" using rem by simp
  then have five: "5 \<le> length (data s) - pos s" using len by simp
  have t5: "take 5 (drop (pos s) (data s)) = take 5 rec" using rem len by simp
  have ne: "take 5 rec \<noteq> []" using len by auto
  have pi: "py_int (take 5 rec) = Some (int (length rec))"
    using py_int_digits [OF dig ne] val by simp
  have "drop (pos s + 5) (data s) = drop 5 (drop (pos s) (data s))" by (simp add: add.commute)
  also have "\<dots> = drop 5 rec @ post" using rem len by simp
  finally have d5: "drop (pos s + 5) (data s) = drop 5 rec @ post" .
  have rd: "read (s\<lparr>pos := pos s + 5\<rparr>) (int (length rec) - 5)
      = Inr (drop 5 rec, s\<lparr>pos := pos s + length rec\<rparr>)"
    using len d5 by (simp add: read_def Let_def nat_diff_distrib')
  show ?thesis using five t5 pi rd by (simp add: read_chunk_full)
qed

lemma next_well_formed:
  assumes wf: "well_formed rec" and rem: "remaining r = rec @ post"
  shows "\<exists>x log. MARCReader_next Record r =
           (Return x, log, r\<lparr>byte_stream := (byte_stream r)\<lparr>pos := pos (byte_stream r) + length rec\<rparr>\<rparr>)"
proof -
  from rem have "drop (pos (byte_stream r)) (data (byte_stream r)) = rec @ post"
    by (simp add: remaining_def)
  from read_chunk_well_formed [OF wf this]
  have rc: "read_chunk (byte_stream r)
      = (Inr rec, (byte_stream r)\<lparr>pos := pos (byte_stream r) + length rec\<rparr>)" .
  from build_record_Return [of Record "fst (decode_chunk rec (utf8_handling r))" r]
  obtain x where "fst (build_record Record (fst (decode_chunk rec (utf8_handling r))) r) = Return x" ..
  with rc show ?thesis by (simp add: next_Return)
qed

lemma iterate_well_formed:
  "list_all well_formed recs \<Longrightarrow> remaining r = concat recs \<Longrightarrow>
     iterate Record r = (recs, StopIteration)"
proof (induction recs arbitrary: r)
  case Nil
  then show ?case by (simp add: iterate_exhausted)
next
  case (Cons rec recs)
  let ?r' = "r\<lparr>byte_stream := (byte_stream r)\<lparr>pos := pos (byte_stream r) + length rec\<rparr>\<rparr>"
  from Cons.prems have wf: "well_formed rec" and wfs: "list_all well_formed recs"
    and rem: "remaining r = rec @ concat recs" by simp_all
  from next_well_formed [OF wf rem, of Record] obtain x log where
    nx: "MARCReader_next Record r = (Return x, log, ?r')" by blast
  have "remaining ?r' = drop (length rec) (remaining r)"
    by (simp add: remaining_def add.commute)
  with rem have rem': "remaining ?r' = concat recs" by simp
  from Cons.IH [OF wfs rem'] have it: "iterate Record ?r' = (recs, StopIteration)" .
  show ?case
    by (subst iterate.simps) (simp add: nx it rem)
qed

section \<open>The length prefix\<close>

text \<open>
  C4. The read of the length prefix returns the next five bytes of the stream, or fewer when
  fewer are left. With none left the call raises \<^verbatim>\<open>StopIteration\<close> and writes nothing;
  with one to four left it raises \<^verbatim>\<open>RecordLengthInvalid\<close>; with five or more left the
  call goes on to parse the prefix and to read the record: its outcome is a return value or
  the \<^verbatim>\<open>ValueError\<close> of the parse or of the second read, never one of the other two
  exceptions, and the cursor has moved past the prefix.
\<close>

theorem next_prefix_cases:
  "(remaining r = [] \<longrightarrow>
      fst (MARCReader_next Record r) = Raise StopIteration
      \<and> fst (snd (MARCReader_next Record r)) = [])
   \<and> (0 < length (remaining r) \<and> length (remaining r) < 5 \<longrightarrow>
      fst (MARCReader_next Record r) = Raise RecordLengthInvalid)
   \<and> (5 \<le> length (remaining r) \<longrightarrow>
      (fst (MARCReader_next Record r) = Raise ValueError
        \<or> (\<exists>x. fst (MARCReader_next Record r) = Return x))
      \<and> pos (byte_stream r) + 5 \<le> pos (byte_stream (snd (snd (MARCReader_next Record r)))))"
proof (intro conjI impI)
  assume "remaining r = []"
  then show "fst (MARCReader_next Record r) = Raise StopIteration"
    and "fst (snd (MARCReader_next Record r)) = []"
    by (simp_all add: next_empty)
next
  assume "0 < length (remaining r) \<and> length (remaining r) < 5"
  then have "read_chunk (byte_stream r) =
      (Inl RecordLengthInvalid, (byte_stream r)\<lparr>pos := length (data (byte_stream r))\<rparr>)"
    by (intro read_chunk_short) (auto simp: remaining_def)
  then show "fst (MARCReader_next Record r) = Raise RecordLengthInvalid"
    by (simp add: next_Raise)
next
  assume five: "5 \<le> length (remaining r)"
  obtain res s where rc: "read_chunk (byte_stream r) = (res, s)"
    by (cases "read_chunk (byte_stream r)")
  show "fst (MARCReader_next Record r) = Raise ValueError
        \<or> (\<exists>x. fst (MARCReader_next Record r) = Return x)"
  proof (cases res)
    case (Inl e)
    with rc five read_chunk_Inl [of "byte_stream r" e s] have "e = ValueError"
      by (auto simp: remaining_def)
    with rc Inl show ?thesis by (simp add: next_Raise)
  next
    case (Inr raw)
    with rc build_record_Return [of Record "fst (decode_chunk raw (utf8_handling r))" r]
    show ?thesis by (simp add: next_Return)
  qed
  show "pos (byte_stream r) + 5 \<le> pos (byte_stream (snd (snd (MARCReader_next Record r))))"
  proof (cases res)
    case (Inl e)
    with rc five read_chunk_Inl [of "byte_stream r" e s]
    have "s = (byte_stream r)\<lparr>pos := pos (byte_stream r) + 5\<rparr>"
      by (auto simp: remaining_def)
    with rc Inl show ?thesis by (simp add: next_Raise)
  next
    case (Inr raw)
    with rc read_chunk_Inr [of "byte_stream r" raw s] show ?thesis
      by (simp add: next_Return)
  qed
qed

theorem next_prefix_cases_witness:
  "remaining (bytes_reader Strict '''') = []
   \<and> fst (MARCReader_next echo (bytes_reader Strict '''')) = Raise StopIteration
   \<and> 0 < length (remaining (bytes_reader Strict ''000''))
   \<and> length (remaining (bytes_reader Strict ''000'')) < 5
   \<and> fst (MARCReader_next echo (bytes_reader Strict ''000'')) = Raise RecordLengthInvalid
   \<and> 5 \<le> length (remaining (bytes_reader Strict ''00007ab''))
   \<and> fst (MARCReader_next echo (bytes_reader Strict ''00007ab''))
       = Return (Some (Str (map of_char ''00007ab'')))
   \<and> pos (byte_stream (snd (snd (MARCReader_next echo (bytes_reader Strict ''00007ab''))))) = 7"
  using next_prefix_cases [of "bytes_reader Strict ''''" echo]
    next_prefix_cases [of "bytes_reader Strict ''000''" echo]
    next_prefix_cases [of "bytes_reader Strict ''00007ab''" echo]
  by (simp add: eval_defs)

section \<open>The end of the stream\<close>

text \<open>
  C6. A reader is exhausted when a call has raised \<^verbatim>\<open>StopIteration\<close>, which happens
  only when the read of the length prefix returned no bytes. From then on every further
  call raises \<^verbatim>\<open>StopIteration\<close> again, however many there are, no call returns a
  record, and the stream stays at its end. A reader over an empty input raises
  \<^verbatim>\<open>StopIteration\<close> at its first call, and a loop over it sees no record.
\<close>

theorem exhausted_stays_exhausted:
  "(fst (MARCReader_next Record r) = Raise StopIteration \<longrightarrow>
      calls Record n (snd (snd (MARCReader_next Record r))) = replicate n (Raise StopIteration)
      \<and> remaining (snd (snd (MARCReader_next Record r))) = [])
   \<and> (data (byte_stream r) = [] \<longrightarrow>
      fst (MARCReader_next Record r) = Raise StopIteration
      \<and> iterate Record r = ([], StopIteration))"
proof (intro conjI impI)
  assume "fst (MARCReader_next Record r) = Raise StopIteration"
  then have e: "remaining r = []" by (rule next_StopIteration)
  then have "snd (snd (MARCReader_next Record r)) = r" by (simp add: next_empty)
  with e show "calls Record n (snd (snd (MARCReader_next Record r))) = replicate n (Raise StopIteration)"
    and "remaining (snd (snd (MARCReader_next Record r))) = []"
    by (simp_all add: calls_exhausted)
next
  assume "data (byte_stream r) = []"
  then have e: "remaining r = []" by (simp add: remaining_def)
  then show "fst (MARCReader_next Record r) = Raise StopIteration"
    and "iterate Record r = ([], StopIteration)"
    by (simp_all add: next_empty iterate_exhausted)
qed

theorem exhausted_stays_exhausted_witness:
  "fst (MARCReader_next echo (bytes_reader Strict '''')) = Raise StopIteration
   \<and> calls echo 3 (snd (snd (MARCReader_next echo (bytes_reader Strict ''''))))
       = [Raise StopIteration, Raise StopIteration, Raise StopIteration]
   \<and> data (byte_stream (bytes_reader Strict '''')) = []
   \<and> iterate echo (bytes_reader Strict '''') = ([], StopIteration)"
  using exhausted_stays_exhausted [of echo "bytes_reader Strict ''''" 3]
  by (simp add: eval_defs iterate.simps numeral_3_eq_3)

section \<open>The two \<^verbatim>\<open>try\<close> blocks\<close>

text \<open>
  C10. When the framing has produced a buffer and the \<^verbatim>\<open>Record\<close> builder raises an
  exception on the chunk made from it, \<^verbatim>\<open>__next__\<close> prints the traceback of that exception
  and returns \<^verbatim>\<open>None\<close>: the caller gets \<^verbatim>\<open>None\<close> in the place of a record, nothing
  is raised, and the stream is just behind the buffer of this call, not behind the next
  record.
\<close>

theorem builder_failure_returns_None:
  assumes "read_chunk (byte_stream r) = (Inr raw, s)"
    and "Record (fst (decode_chunk raw (utf8_handling r))) (hide_utf8_warnings r) (utf8_handling r)
           = Inl e"
  shows "MARCReader_next Record r =
           (Return None,
            map Logged (snd (decode_chunk raw (utf8_handling r))) @ [Traceback e],
            r\<lparr>byte_stream := s\<rparr>)"
  using assms by (simp add: next_Return build_record_def)

theorem builder_failure_returns_None_witness:
  "read_chunk (byte_stream (bytes_reader Strict ''00007ab''))
     = (Inr ''00007ab'', \<lparr>kind = BytesIO, data = ''00007ab'', pos = 7\<rparr>)
   \<and> reject (fst (decode_chunk ''00007ab'' Strict)) False Strict = Inl ()
   \<and> MARCReader_next reject (bytes_reader Strict ''00007ab'') =
       (Return None, [Traceback ()],
        (bytes_reader Strict ''00007ab'')\<lparr>byte_stream := \<lparr>kind = BytesIO, data = ''00007ab'', pos = 7\<rparr>\<rparr>)"
proof -
  have rc: "read_chunk (byte_stream (bytes_reader Strict ''00007ab''))
     = (Inr ''00007ab'', \<lparr>kind = BytesIO, data = ''00007ab'', pos = 7\<rparr>)"
    by (simp add: eval_defs)
  have rj: "reject (fst (decode_chunk ''00007ab'' (utf8_handling (bytes_reader Strict ''00007ab''))))
      (hide_utf8_warnings (bytes_reader Strict ''00007ab''))
      (utf8_handling (bytes_reader Strict ''00007ab'')) = Inl ()"
    by (simp add: reject_def)
  have dc: "decode_chunk ''00007ab'' Strict = (Str (map of_char ''00007ab''), [])"
    by (simp add: eval_defs)
  from builder_failure_returns_None [where Record = reject, OF rc rj] rc dc show ?thesis
    by (simp add: reject_def bytes_reader_def)
qed

text \<open>
  C9. When decoding the buffer raises, whatever the exception (under \<^verbatim>\<open>strict\<close> it is
  \<^verbatim>\<open>UnicodeDecodeError\<close>), the chunk stays the raw bytes, and it is this bytes object that
  the \<^verbatim>\<open>Record\<close> builder is called with: the outcome of the call is the outcome of the
  builder on the bytes.
\<close>

theorem failed_decode_passes_bytes:
  assumes "read_chunk (byte_stream r) = (Inr raw, s)"
    and "decode raw (utf8_handling r) = Inl e"
  shows "fst (decode_chunk raw (utf8_handling r)) = Bytes raw
     \<and> fst (MARCReader_next Record r) =
         (case Record (Bytes raw) (hide_utf8_warnings r) (utf8_handling r) of
            Inr record \<Rightarrow> Return (Some record)
          | Inl err \<Rightarrow> Return None)"
  using assms by (simp add: next_Return decode_chunk_Inl build_record_def split: sum.splits)

theorem failed_decode_passes_bytes_witness:
  "read_chunk (byte_stream (bytes_reader Strict bad_record))
     = (Inr bad_record, \<lparr>kind = BytesIO, data = bad_record, pos = 6\<rparr>)
   \<and> decode bad_record Strict = Inl UnicodeDecodeError
   \<and> fst (MARCReader_next echo (bytes_reader Strict bad_record)) = Return (Some (Bytes bad_record))"
proof -
  have rc: "read_chunk (byte_stream (bytes_reader Strict bad_record))
     = (Inr bad_record, \<lparr>kind = BytesIO, data = bad_record, pos = 6\<rparr>)"
    by (simp add: eval_defs bad_record_def)
  have dc: "decode bad_record (utf8_handling (bytes_reader Strict bad_record)) = Inl UnicodeDecodeError"
    by (simp add: eval_defs bad_record_def)
  from failed_decode_passes_bytes [where Record = echo, OF rc dc] rc dc show ?thesis
    by (simp add: echo_def bytes_reader_def)
qed

text \<open>
  C2, as the specification states it: under \<^verbatim>\<open>strict\<close>, a buffer with an invalid UTF-8
  sequence makes the call report a decode error to its caller. It does not: on the six
  bytes \<^verbatim>\<open>00006\<close> and \<^verbatim>\<open>0xFF\<close> the call logs the error and returns the record that
  the builder makes of the raw bytes.
\<close>

theorem strict_decode_counterexample:
  "invalid_utf8 bad_record
   \<and> utf8_handling (bytes_reader Strict bad_record) = Strict
   \<and> MARCReader_next echo (bytes_reader Strict bad_record)
       = (Return (Some (Bytes bad_record)), [Logged (Cannot_iterate UnicodeDecodeError)],
          (bytes_reader Strict bad_record)\<lparr>byte_stream := \<lparr>kind = BytesIO, data = bad_record, pos = 6\<rparr>\<rparr>)"
  by (simp add: eval_defs bad_record_def)

text \<open>
  C2, amended. Under \<^verbatim>\<open>strict\<close>, a buffer with an invalid UTF-8 sequence makes the call
  log \<^verbatim>\<open>"Cannot iterate, error=UnicodeDecodeError"\<close>, so the failure is not silent, but the
  exception is caught and not raised to the caller: the builder is called with the raw
  bytes and the call returns what the builder gives. The stream is just behind the buffer,
  so the next call starts at the next record.
\<close>

theorem strict_decode_error_logged_not_raised:
  assumes "read_chunk (byte_stream r) = (Inr raw, s)"
    and "invalid_utf8 raw"
    and "utf8_handling r = Strict"
  shows "MARCReader_next Record r =
           (fst (build_record Record (Bytes raw) r),
            Logged (Cannot_iterate UnicodeDecodeError)
              # map Traceback (snd (build_record Record (Bytes raw) r)),
            r\<lparr>byte_stream := s\<rparr>)
     \<and> fst (MARCReader_next Record r) \<noteq> Raise UnicodeDecodeError
     \<and> remaining (r\<lparr>byte_stream := s\<rparr>) = drop (length raw) (remaining r)
     \<and> raw = take (length raw) (remaining r)"
proof -
  from assms(2,3) have "decode_chunk raw (utf8_handling r) = (Bytes raw, [Cannot_iterate UnicodeDecodeError])"
    by (simp add: decode_chunk_Inl decode_strict_invalid)
  with assms(1) have nx: "MARCReader_next Record r =
           (fst (build_record Record (Bytes raw) r),
            Logged (Cannot_iterate UnicodeDecodeError)
              # map Traceback (snd (build_record Record (Bytes raw) r)),
            r\<lparr>byte_stream := s\<rparr>)"
    by (simp add: next_Return)
  moreover have "fst (MARCReader_next Record r) \<noteq> Raise UnicodeDecodeError"
    using nx build_record_Return [of Record "Bytes raw" r] by auto
  ultimately show ?thesis using read_chunk_pos [OF assms(1)] by simp
qed

theorem strict_decode_error_logged_not_raised_witness:
  "read_chunk (byte_stream (bytes_reader Strict bad_record))
     = (Inr bad_record, \<lparr>kind = BytesIO, data = bad_record, pos = 6\<rparr>)
   \<and> invalid_utf8 bad_record
   \<and> utf8_handling (bytes_reader Strict bad_record) = Strict
   \<and> fst (snd (MARCReader_next reject (bytes_reader Strict bad_record)))
       = [Logged (Cannot_iterate UnicodeDecodeError), Traceback ()]
   \<and> fst (MARCReader_next reject (bytes_reader Strict bad_record)) = Return None"
proof -
  have rc: "read_chunk (byte_stream (bytes_reader Strict bad_record))
     = (Inr bad_record, \<lparr>kind = BytesIO, data = bad_record, pos = 6\<rparr>)"
    by (simp add: eval_defs bad_record_def)
  have iv: "invalid_utf8 bad_record" by (simp add: eval_defs bad_record_def)
  have st: "utf8_handling (bytes_reader Strict bad_record) = Strict" by (simp add: bytes_reader_def)
  from strict_decode_error_logged_not_raised [where Record = reject, OF rc iv st] rc iv st
  show ?thesis by (simp add: build_record_def reject_def)
qed

text \<open>
  C7, as the specification states it: a failure of the builder is logged with the length of
  the buffer. It is not: nothing is logged, the traceback of the builder's exception is
  printed, and for the same exception the output is the same for a buffer of seven bytes
  and a buffer of nine.
\<close>

theorem builder_failure_log_counterexample:
  "fst (snd (MARCReader_next reject (bytes_reader Strict ''00007ab''))) = [Traceback ()]
   \<and> fst (snd (MARCReader_next reject (bytes_reader Strict ''00009abcd''))) = [Traceback ()]"
  by (simp add: eval_defs reject_def)

text \<open>
  C7, amended. When the builder fails on the chunk, the call prints the traceback of the
  builder's exception to \<^verbatim>\<open>sys.stderr\<close> after whatever the decoding logged, and nothing
  else; it returns \<^verbatim>\<open>None\<close> instead of raising; and the buffer it read is exactly the
  bytes that the stream has moved past, so the next call reads the prefix of the next
  record.
\<close>

theorem builder_failure_keeps_framing:
  assumes "read_chunk (byte_stream r) = (Inr raw, s)"
    and "Record (fst (decode_chunk raw (utf8_handling r))) (hide_utf8_warnings r) (utf8_handling r)
           = Inl e"
  shows "fst (snd (MARCReader_next Record r))
           = map Logged (snd (decode_chunk raw (utf8_handling r))) @ [Traceback e]
     \<and> fst (MARCReader_next Record r) = Return None
     \<and> raw = take (length raw) (remaining r)
     \<and> remaining (snd (snd (MARCReader_next Record r))) = drop (length raw) (remaining r)"
  using assms read_chunk_pos [OF assms(1)] by (simp add: next_Return build_record_def)

theorem builder_failure_keeps_framing_witness:
  "read_chunk (byte_stream (bytes_reader Strict ''00007ab00006c''))
     = (Inr ''00007ab'', \<lparr>kind = BytesIO, data = ''00007ab00006c'', pos = 7\<rparr>)
   \<and> reject (fst (decode_chunk ''00007ab'' Strict)) False Strict = Inl ()
   \<and> fst (snd (MARCReader_next reject (bytes_reader Strict ''00007ab00006c''))) = [Traceback ()]
   \<and> fst (MARCReader_next reject (bytes_reader Strict ''00007ab00006c'')) = Return None
   \<and> remaining (snd (snd (MARCReader_next reject (bytes_reader Strict ''00007ab00006c'')))) = ''00006c''"
proof -
  have rc: "read_chunk (byte_stream (bytes_reader Strict ''00007ab00006c''))
     = (Inr ''00007ab'', \<lparr>kind = BytesIO, data = ''00007ab00006c'', pos = 7\<rparr>)"
    by (simp add: eval_defs)
  have rj: "reject (fst (decode_chunk ''00007ab'' (utf8_handling (bytes_reader Strict ''00007ab00006c''))))
      (hide_utf8_warnings (bytes_reader Strict ''00007ab00006c''))
      (utf8_handling (bytes_reader Strict ''00007ab00006c'')) = Inl ()"
    by (simp add: reject_def)
  have dc: "decode_chunk ''00007ab'' Strict = (Str (map of_char ''00007ab''), [])"
    by (simp add: eval_defs)
  from builder_failure_keeps_framing [where Record = reject, OF rc rj] rc dc show ?thesis
    by (simp add: reject_def bytes_reader_def remaining_def)
qed

section \<open>Buffers that are short or have no length\<close>

text \<open>
  C1, as the specification states it: a stream that ends before the declared length makes
  the call raise a truncation error and never return the short buffer as a record. The
  source has no such check: on a prefix \<^verbatim>\<open>00050\<close> followed by 35 bytes the call returns
  the record that the builder makes of the 40 bytes.
\<close>

theorem truncated_record_counterexample:
  "length truncated_input = 40
   \<and> py_int (take 5 truncated_input) = Some 50
   \<and> fst (MARCReader_next echo (bytes_reader Strict truncated_input))
       = Return (Some (Str (map of_char truncated_input)))"
  by (simp add: eval_defs truncated_input_def)

text \<open>
  C1, amended. When the prefix parses to a length greater than the number of bytes that
  are left, prefix included, the call reads all of them, makes no check of the length, and
  hands the short buffer to the decoding and to the builder: its outcome is what the
  builder gives for the short buffer. It never raises \<^verbatim>\<open>StopIteration\<close>, so the caller can
  tell it from the end of the stream.
\<close>

theorem truncated_record_goes_to_builder:
  assumes "5 \<le> length (remaining r)"
    and "py_int (take 5 (remaining r)) = Some L"
    and "int (length (remaining r)) < L"
  shows "read_chunk (byte_stream r)
           = (Inr (remaining r), (byte_stream r)\<lparr>pos := length (data (byte_stream r))\<rparr>)
     \<and> fst (MARCReader_next Record r)
           = fst (build_record Record (fst (decode_chunk (remaining r) (utf8_handling r))) r)
     \<and> fst (MARCReader_next Record r) \<noteq> Raise StopIteration"
proof -
  have rc: "read_chunk (byte_stream r)
           = (Inr (remaining r), (byte_stream r)\<lparr>pos := length (data (byte_stream r))\<rparr>)"
    using assms read_chunk_truncated [of "byte_stream r" L] by (simp add: remaining_def)
  moreover have nx: "fst (MARCReader_next Record r)
           = fst (build_record Record (fst (decode_chunk (remaining r) (utf8_handling r))) r)"
    using rc by (simp add: next_Return)
  moreover have "fst (MARCReader_next Record r) \<noteq> Raise StopIteration"
    using nx build_record_Return [of Record "fst (decode_chunk (remaining r) (utf8_handling r))" r]
    by auto
  ultimately show ?thesis by simp
qed

theorem truncated_record_goes_to_builder_witness:
  "5 \<le> length (remaining (bytes_reader Strict truncated_input))
   \<and> py_int (take 5 (remaining (bytes_reader Strict truncated_input))) = Some 50
   \<and> int (length (remaining (bytes_reader Strict truncated_input))) < 50
   \<and> read_chunk (byte_stream (bytes_reader Strict truncated_input))
       = (Inr truncated_input, \<lparr>kind = BytesIO, data = truncated_input, pos = 40\<rparr>)
   \<and> fst (MARCReader_next reject (bytes_reader Strict truncated_input)) = Return None"
proof -
  have h1: "5 \<le> length (remaining (bytes_reader Strict truncated_input))"
    by (simp add: eval_defs truncated_input_def)
  have h2: "py_int (take 5 (remaining (bytes_reader Strict truncated_input))) = Some 50"
    by (simp add: eval_defs truncated_input_def)
  have h3: "int (length (remaining (bytes_reader Strict truncated_input))) < 50"
    by (simp add: eval_defs truncated_input_def)
  have rem: "remaining (bytes_reader Strict truncated_input) = truncated_input"
    by (simp add: remaining_def bytes_reader_def)
  have len: "length truncated_input = 40" by (simp add: truncated_input_def)
  from truncated_record_goes_to_builder [where Record = reject, OF h1 h2 h3] h1 h2 h3
  show ?thesis
    by (simp add: remaining_def len bytes_reader_def build_record_def reject_def)
qed

text \<open>
  C3, as the specification states it: five bytes with a character that is no digit make
  the call raise \<^verbatim>\<open>RecordLengthInvalid\<close>, and no record is returned. On \<^verbatim>\<open>abcde\<close> the
  call raises \<^verbatim>\<open>ValueError\<close> instead, and on \<^verbatim>\<open>+0007\<close> followed by two bytes it returns
  a record, since \<^verbatim>\<open>int\<close> accepts a sign.
\<close>

theorem prefix_parse_counterexample:
  "fst (MARCReader_next echo (bytes_reader Strict ''abcde'')) = Raise ValueError
   \<and> fst (MARCReader_next echo (bytes_reader Strict ''+0007ab''))
       = Return (Some (Str (map of_char ''+0007ab'')))"
  by (simp add: eval_defs)

text \<open>
  C3, amended. When the five bytes of the prefix are not a literal that \<^verbatim>\<open>int\<close> accepts,
  the call raises \<^verbatim>\<open>ValueError\<close>: nothing is read after the prefix, nothing is written,
  the builder is not called and no record is returned.
\<close>

theorem unparsable_prefix_raises_ValueError:
  assumes "5 \<le> length (remaining r)"
    and "py_int (take 5 (remaining r)) = None"
  shows "MARCReader_next Record r =
           (Raise ValueError, [], r\<lparr>byte_stream := (byte_stream r)\<lparr>pos := pos (byte_stream r) + 5\<rparr>\<rparr>)"
  using assms by (simp add: next_Raise read_chunk_full remaining_def)

theorem unparsable_prefix_raises_ValueError_witness:
  "5 \<le> length (remaining (bytes_reader Strict ''abcdefg''))
   \<and> py_int (take 5 (remaining (bytes_reader Strict ''abcdefg''))) = None
   \<and> MARCReader_next echo (bytes_reader Strict ''abcdefg'') =
       (Raise ValueError, [],
        (bytes_reader Strict ''abcdefg'')\<lparr>byte_stream := \<lparr>kind = BytesIO, data = ''abcdefg'', pos = 5\<rparr>\<rparr>)"
proof -
  have h1: "5 \<le> length (remaining (bytes_reader Strict ''abcdefg''))"
    by (simp add: eval_defs)
  have h2: "py_int (take 5 (remaining (bytes_reader Strict ''abcdefg''))) = None"
    by (simp add: eval_defs)
  from unparsable_prefix_raises_ValueError [where Record = echo, OF h1 h2] h1 h2
  show ?thesis by (simp add: bytes_reader_def)
qed

section \<open>Framing of a valid stream\<close>

text \<open>
  C5. On a stream whose unread bytes are a concatenation of well-formed records, each with
  five decimal digits that give its total length, a loop over the reader makes one
  returning call per record and then ends with \<^verbatim>\<open>StopIteration\<close>. The bytes that each call
  consumes are exactly its record, so their number is the length that the prefix declares,
  and the consumed spans, concatenated in order, are the input. This holds whatever the
  decoding and the builder do with the buffers.
\<close>

theorem framing_lossless:
  assumes "list_all well_formed recs" and "remaining r = concat recs"
  shows "iterate Record r = (recs, StopIteration)
     \<and> map length (fst (iterate Record r)) = map (\<lambda>rec. decimal_value (take 5 rec)) recs
     \<and> concat (fst (iterate Record r)) = remaining r"
proof -
  have it: "iterate Record r = (recs, StopIteration)"
    using assms by (rule iterate_well_formed)
  have "map length recs = map (\<lambda>rec. decimal_value (take 5 rec)) recs"
    using assms(1) by (induction recs) (simp_all add: well_formed_def)
  with it assms(2) show ?thesis by simp
qed

theorem framing_lossless_witness:
  "list_all well_formed [''00007ab'', ''00006c'']
   \<and> remaining (bytes_reader Strict ''00007ab00006c'') = concat [''00007ab'', ''00006c'']
   \<and> iterate echo (bytes_reader Strict ''00007ab00006c'') = ([''00007ab'', ''00006c''], StopIteration)"
proof -
  have h1: "list_all well_formed [''00007ab'', ''00006c'']"
    by (simp add: well_formed_def is_digit_def decimal_value_def)
  have h2: "remaining (bytes_reader Strict ''00007ab00006c'') = concat [''00007ab'', ''00006c'']"
    by (simp add: remaining_def bytes_reader_def)
  from framing_lossless [where Record = echo, OF h1 h2] h1 h2 show ?thesis by simp
qed

section \<open>The input normalizer\<close>

lemmas init_defs = MARCReader_init_def normalize_def open_rb_def encode_ascii_def encode_char_def
  get_utf8_handling_def get_hide_utf8_warnings_def
  example_world_def text_file_def random_file_def memory_stream_def no_kwargs_def replace_kwargs_def

lemma encode_ascii_all_ascii:
  "list_all (\<lambda>c. c < 128) t \<Longrightarrow> encode_ascii t errors = Inr (map char_of t)"
proof -
  assume a: "list_all (\<lambda>c. c < 128) t"
  then have "\<not> list_ex (\<lambda>c. encode_char errors c = None) t"
    by (auto simp: list_all_iff list_ex_iff encode_char_def)
  moreover from a have "concat (map (\<lambda>c. the (encode_char errors c)) t) = map char_of t"
    by (induction t) (simp_all add: encode_char_def)
  ultimately show ?thesis by (simp add: encode_ascii_def)
qed

lemma encode_char_strict_None: "(encode_char Strict c = None) = (128 \<le> c)"
  by (auto simp: encode_char_def)

lemma encode_ascii_strict:
  "list_ex (\<lambda>c. 128 \<le> c) t \<Longrightarrow> encode_ascii t Strict = Inl UnicodeEncodeError"
  by (simp add: encode_ascii_def encode_char_strict_None)

lemma encode_ascii_replace:
  "encode_ascii t Replace = Inr (map (\<lambda>c. if c < 128 then char_of c else CHR ''?'') t)"
proof -
  have "\<not> list_ex (\<lambda>c. encode_char Replace c = None) t"
    by (auto simp: list_ex_iff encode_char_def)
  moreover have "concat (map (\<lambda>c. the (encode_char Replace c)) t)
      = map (\<lambda>c. if c < 128 then char_of c else CHR ''?'') t"
    by (induction t) (simp_all add: encode_char_def)
  ultimately show ?thesis by (simp add: encode_ascii_def)
qed

lemma encode_ascii_ignore:
  "encode_ascii t Ignore = Inr (map char_of (filter (\<lambda>c. c < 128) t))"
proof -
  have "\<not> list_ex (\<lambda>c. encode_char Ignore c = None) t"
    by (auto simp: list_ex_iff encode_char_def)
  moreover have "concat (map (\<lambda>c. the (encode_char Ignore c)) t)
      = map char_of (filter (\<lambda>c. c < 128) t)"
    by (induction t) (simp_all add: encode_char_def)
  ultimately show ?thesis by (simp add: encode_ascii_def)
qed

lemma encode_ascii_xmlcharrefreplace:
  "encode_ascii t XmlCharRefReplace
     = Inr (concat (map (\<lambda>c. if c < 128 then [char_of c] else ''&#'' @ decimal c @ '';'') t))"
proof -
  have "\<not> list_ex (\<lambda>c. encode_char XmlCharRefReplace c = None) t"
    by (auto simp: list_ex_iff encode_char_def)
  moreover have "concat (map (\<lambda>c. the (encode_char XmlCharRefReplace c)) t)
      = concat (map (\<lambda>c. if c < 128 then [char_of c] else ''&#'' @ decimal c @ '';'') t)"
    by (induction t) (simp_all add: encode_char_def)
  ultimately show ?thesis by (simp add: encode_ascii_def)
qed

text \<open>
  C8, as the specification states it: an input that is already a buffered binary handle is
  used as it is, and only other readable objects are closed and reopened. The constructor
  passes through an object whose type is \<^verbatim>\<open>BufferedReader\<close> itself and no other: a
  \<^verbatim>\<open>BufferedRandom\<close> on a file is closed and the file is opened again, and a
  \<^verbatim>\<open>BytesIO\<close>, which has no \<^verbatim>\<open>name\<close>, makes the constructor raise
  \<^verbatim>\<open>AttributeError\<close>.
\<close>

theorem normalizer_counterexample:
  "buffered_binary_handle (FileLike random_file)
   \<and> MARCReader_init example_world (FileLike random_file) no_kwargs
       = (Inr \<lparr>utf8_handling = Strict, hide_utf8_warnings = False,
               byte_stream = \<lparr>kind = BufferedReader, data = ''00007ab'', pos = 0\<rparr>\<rparr>,
          example_world\<lparr>io_trace := [Close 2, Open ''a.mrc'']\<rparr>)
   \<and> buffered_binary_handle (FileLike memory_stream)
   \<and> MARCReader_init example_world (FileLike memory_stream) no_kwargs
       = (Inl AttributeError, example_world)"
  by (simp add: init_defs buffered_binary_handle_def)

text \<open>
  C8, amended. For a readable object whose type is not \<^verbatim>\<open>BufferedReader\<close> itself, of
  whatever class, and that has a \<^verbatim>\<open>name\<close>, the constructor takes the path from the name,
  closes the object and then opens the path for binary reads, the close before the open:
  when the file opens, the reader's stream is the new handle at the start of the file, and
  when it does not, the constructor raises with the object closed. An object whose type is
  \<^verbatim>\<open>BufferedReader\<close> is the reader's stream as it is, cursor included, and nothing is
  closed or opened. A \<^verbatim>\<open>str\<close> is encoded to ASCII under the error handler given by the
  keyword \<^verbatim>\<open>utf8_handling\<close>, \<^verbatim>\<open>strict\<close> when it is absent, and the stream is a
  \<^verbatim>\<open>BytesIO\<close> over the bytes; when the encoding raises, so does the constructor. The
  reader keeps the two keyword arguments, with their defaults. The encoding of a text of
  ASCII characters is its bytes under every handler; with another character in the text,
  \<^verbatim>\<open>strict\<close> raises \<^verbatim>\<open>UnicodeEncodeError\<close>, \<^verbatim>\<open>replace\<close> writes a question mark for
  it, \<^verbatim>\<open>ignore\<close> leaves it out and \<^verbatim>\<open>xmlcharrefreplace\<close> writes its numeric character
  reference.
\<close>

theorem normalizer_by_type:
  "(name_attr f = Some path \<longrightarrow>
      MARCReader_init w (FileLike f) kw =
        (case files w path of
           None \<Rightarrow> (Inl OSError, w\<lparr>io_trace := io_trace w @ [Close (ident f)]\<rparr>)
         | Some bs \<Rightarrow>
             (Inr \<lparr>utf8_handling = get_utf8_handling kw,
                   hide_utf8_warnings = get_hide_utf8_warnings kw,
                   byte_stream = \<lparr>kind = BufferedReader, data = bs, pos = 0\<rparr>\<rparr>,
              w\<lparr>io_trace := io_trace w @ [Close (ident f), Open path]\<rparr>)))
   \<and> MARCReader_init w (Buffered s) kw =
        (Inr \<lparr>utf8_handling = get_utf8_handling kw,
              hide_utf8_warnings = get_hide_utf8_warnings kw,
              byte_stream = s\<rparr>, w)
   \<and> MARCReader_init w (Text t) kw =
        (case encode_ascii t (get_utf8_handling kw) of
           Inl e \<Rightarrow> (Inl e, w)
         | Inr raw_bytes \<Rightarrow>
             (Inr \<lparr>utf8_handling = get_utf8_handling kw,
                   hide_utf8_warnings = get_hide_utf8_warnings kw,
                   byte_stream = \<lparr>kind = BytesIO, data = raw_bytes, pos = 0\<rparr>\<rparr>, w))
   \<and> get_utf8_handling kw = (case kw_utf8_handling kw of Some v \<Rightarrow> v | None \<Rightarrow> Strict)
   \<and> get_hide_utf8_warnings kw = (case kw_hide_utf8_warnings kw of Some v \<Rightarrow> v | None \<Rightarrow> False)
   \<and> (list_all (\<lambda>c. c < 128) t \<longrightarrow> encode_ascii t errors = Inr (map char_of t))
   \<and> (list_ex (\<lambda>c. 128 \<le> c) t \<longrightarrow> encode_ascii t Strict = Inl UnicodeEncodeError)
   \<and> encode_ascii t Replace = Inr (map (\<lambda>c. if c < 128 then char_of c else CHR ''?'') t)
   \<and> encode_ascii t Ignore = Inr (map char_of (filter (\<lambda>c. c < 128) t))
   \<and> encode_ascii t XmlCharRefReplace
        = Inr (concat (map (\<lambda>c. if c < 128 then [char_of c] else ''&#'' @ decimal c @ '';'') t))"
proof -
  have a: "name_attr f = Some path \<longrightarrow>
      MARCReader_init w (FileLike f) kw =
        (case files w path of
           None \<Rightarrow> (Inl OSError, w\<lparr>io_trace := io_trace w @ [Close (ident f)]\<rparr>)
         | Some bs \<Rightarrow>
             (Inr \<lparr>utf8_handling = get_utf8_handling kw,
                   hide_utf8_warnings = get_hide_utf8_warnings kw,
                   byte_stream = \<lparr>kind = BufferedReader, data = bs, pos = 0\<rparr>\<rparr>,
              w\<lparr>io_trace := io_trace w @ [Close (ident f), Open path]\<rparr>))"
    by (simp add: MARCReader_init_def normalize_def open_rb_def split: option.splits)
  have b: "MARCReader_init w (Buffered s) kw =
        (Inr \<lparr>utf8_handling = get_utf8_handling kw,
              hide_utf8_warnings = get_hide_utf8_warnings kw,
              byte_stream = s\<rparr>, w)"
    by (simp add: MARCReader_init_def normalize_def)
  have c: "MARCReader_init w (Text t) kw =
        (case encode_ascii t (get_utf8_handling kw) of
           Inl e \<Rightarrow> (Inl e, w)
         | Inr raw_bytes \<Rightarrow>
             (Inr \<lparr>utf8_handling = get_utf8_handling kw,
                   hide_utf8_warnings = get_hide_utf8_warnings kw,
                   byte_stream = \<lparr>kind = BytesIO, data = raw_bytes, pos = 0\<rparr>\<rparr>, w))"
    by (simp add: MARCReader_init_def normalize_def split: sum.splits)
  have d: "get_utf8_handling kw = (case kw_utf8_handling kw of Some v \<Rightarrow> v | None \<Rightarrow> Strict)"
    by (simp add: get_utf8_handling_def)
  have e: "get_hide_utf8_warnings kw = (case kw_hide_utf8_warnings kw of Some v \<Rightarrow> v | None \<Rightarrow> False)"
    by (simp add: get_hide_utf8_warnings_def)
  from a b c d e encode_ascii_all_ascii [of t errors] encode_ascii_strict [of t]
    encode_ascii_replace [of t] encode_ascii_ignore [of t] encode_ascii_xmlcharrefreplace [of t]
  show ?thesis by blast
qed

theorem normalizer_by_type_witness:
  "name_attr text_file = Some ''a.mrc''
   \<and> MARCReader_init example_world (FileLike text_file) replace_kwargs
       = (Inr \<lparr>utf8_handling = Replace, hide_utf8_warnings = True,
               byte_stream = \<lparr>kind = BufferedReader, data = ''00007ab'', pos = 0\<rparr>\<rparr>,
          example_world\<lparr>io_trace := [Close 1, Open ''a.mrc'']\<rparr>)
   \<and> MARCReader_init example_world (Buffered \<lparr>kind = BufferedReader, data = ''00007ab'', pos = 3\<rparr>)
         replace_kwargs
       = (Inr \<lparr>utf8_handling = Replace, hide_utf8_warnings = True,
               byte_stream = \<lparr>kind = BufferedReader, data = ''00007ab'', pos = 3\<rparr>\<rparr>,
          example_world)
   \<and> MARCReader_init example_world (Text [48, 233]) replace_kwargs
       = (Inr \<lparr>utf8_handling = Replace, hide_utf8_warnings = True,
               byte_stream = \<lparr>kind = BytesIO, data = ''0?'', pos = 0\<rparr>\<rparr>,
          example_world)
   \<and> list_ex (\<lambda>c. 128 \<le> c) [48, 233 :: nat]
   \<and> MARCReader_init example_world (Text [48, 233]) no_kwargs = (Inl UnicodeEncodeError, example_world)
   \<and> list_all (\<lambda>c. c < 128) [48, 55 :: nat]
   \<and> MARCReader_init example_world (Text [48, 55]) no_kwargs
       = (Inr (bytes_reader Strict ''07''), example_world)"
  using normalizer_by_type [of text_file "''a.mrc''" example_world replace_kwargs
      "\<lparr>kind = BufferedReader, data = ''00007ab'', pos = 3\<rparr>" "[48, 233]" Strict]
    normalizer_by_type [of text_file "''a.mrc''" example_world no_kwargs
      "\<lparr>kind = BufferedReader, data = ''00007ab'', pos = 3\<rparr>" "[48, 233]" Strict]
    normalizer_by_type [of text_file "''a.mrc''" example_world no_kwargs
      "\<lparr>kind = BufferedReader, data = ''00007ab'', pos = 3\<rparr>" "[48, 55]" Strict]
  by (simp add: init_defs bytes_reader_def char_of_eq_iff)

end
